theory Spec2Isabelle
  imports Complex_Main "HOL-Library.Sublist"
begin

section \<open>JSON tree visualizer: tree construction, layout and path queries\<close>

text \<open>
  A shallow embedding of \<^verbatim>\<open>src/src/App.jsx\<close>: \<^verbatim>\<open>detectType\<close>, \<^verbatim>\<open>buildTree\<close>,
  \<^verbatim>\<open>computeWidths\<close>, \<^verbatim>\<open>layoutTree\<close>, \<^verbatim>\<open>mapToFlow\<close>, \<^verbatim>\<open>parsePath\<close>, \<^verbatim>\<open>findByPath\<close> and the
  search handler \<^verbatim>\<open>onSearch\<close>.

  Strings are lists of code units in the range 0..255. Numbers are rationals: every
  number the layout computes from integer widths and the constant gaps is an integer far
  below \<open>2^53\<close>, where JavaScript arithmetic is exact.
\<close>

subsection \<open>Values\<close>

text \<open>
  The result of \<^verbatim>\<open>JSON.parse\<close>. An object is the list of its own enumerable properties in
  the order \<^verbatim>\<open>Object.keys\<close> reports them; a JavaScript object holds each key once, which
  \<open>wf_json\<close> states.
\<close>

datatype json =
    JNull
  | JBool bool
  | JNum rat
  | JStr string
  | JArr "json list"
  | JObj "(string \<times> json) list"

fun wf_json :: "json \<Rightarrow> bool"
  and wf_members :: "(string \<times> json) list \<Rightarrow> bool"
  and wf_elements :: "json list \<Rightarrow> bool"
where
  "wf_json (JObj kvs) = (distinct (map fst kvs) \<and> wf_members kvs)"
| "wf_json (JArr xs) = wf_elements xs"
| "wf_json JNull = True"
| "wf_json (JBool b) = True"
| "wf_json (JNum r) = True"
| "wf_json (JStr s) = True"
| "wf_members [] = True"
| "wf_members ((k, v) # kvs) = (wf_json v \<and> wf_members kvs)"
| "wf_elements [] = True"
| "wf_elements (v # vs) = (wf_json v \<and> wf_elements vs)"

datatype kind = KObject | KArray | KPrimitive

text \<open>\<^verbatim>\<open>detectType\<close>, lines 25 to 29.\<close>

fun detectType :: "json \<Rightarrow> kind" where
  "detectType (JArr xs) = KArray"
| "detectType (JObj kvs) = KObject"
| "detectType v = KPrimitive"

subsection \<open>Decimal text of an index\<close>

text \<open>
  \<^verbatim>\<open>String(i)\<close> and the template \<^verbatim>\<open>${i}\<close> for a non-negative integer \<open>i\<close>: its decimal
  digits, without leading zeros.
\<close>

definition digitChar :: "nat \<Rightarrow> char" where
  "digitChar d = ''0123456789'' ! d"

fun String_nat :: "nat \<Rightarrow> string" where
  "String_nat n =
     (if n < 10 then [digitChar n] else String_nat (n div 10) @ [digitChar (n mod 10)])"

declare String_nat.simps [simp del]

subsection \<open>Tree nodes\<close>

text \<open>
  The node objects of \<^verbatim>\<open>buildTree\<close>. \<^verbatim>\<open>buildTree\<close> creates a node without \<^verbatim>\<open>width\<close> and
  \<^verbatim>\<open>position\<close>; \<^verbatim>\<open>computeWidths\<close> adds the first and \<^verbatim>\<open>layoutTree\<close> the second. A field
  that has not been assigned yet has type \<open>unit\<close>: the type parameters \<open>'w\<close> and \<open>'p\<close>
  say which passes have run.
\<close>

datatype ('w, 'p) node =
  Node (node_id: string) (key: string) (node_type: kind) (node_value: json)
       (children: "('w, 'p) node list") (width: 'w) (position: 'p)

fun subnodes :: "('w, 'p) node \<Rightarrow> ('w, 'p) node list" where
  "subnodes (Node i k t v cs w p) = Node i k t v cs w p # concat (map subnodes cs)"

subsection \<open>Tree Builder\<close>

text \<open>
  Lines 46 to 67. The loop pops a node and appends one child per key (or per index) to
  its \<^verbatim>\<open>children\<close> array, in source order, and pushes every child that is not a primitive
  for its own expansion. Each node is expanded once, and only into its own array, so the
  order of the stack does not show in the tree: \<open>expand\<close> builds the node at a path with
  its children expanded in place. A primitive child is never pushed and keeps no
  children, which is what \<open>expand\<close> gives it.
\<close>

fun expand :: "string \<Rightarrow> string \<Rightarrow> json \<Rightarrow> (unit, unit) node"
  and expandKeys :: "string \<Rightarrow> (string \<times> json) list \<Rightarrow> (unit, unit) node list"
  and expandItems :: "string \<Rightarrow> nat \<Rightarrow> json list \<Rightarrow> (unit, unit) node list"
where
  "expand path k (JObj kvs) = Node path k KObject (JObj kvs) (expandKeys path kvs) () ()"
| "expand path k (JArr xs) = Node path k KArray (JArr xs) (expandItems path 0 xs) () ()"
| "expand path k JNull = Node path k KPrimitive JNull [] () ()"
| "expand path k (JBool b) = Node path k KPrimitive (JBool b) [] () ()"
| "expand path k (JNum r) = Node path k KPrimitive (JNum r) [] () ()"
| "expand path k (JStr s) = Node path k KPrimitive (JStr s) [] () ()"
| "expandKeys path [] = []"
| "expandKeys path ((k, childVal) # kvs) =
     expand (path @ ''.'' @ k) k childVal # expandKeys path kvs"
| "expandItems path i [] = []"
| "expandItems path i (v # vs) =
     expand (path @ ''['' @ String_nat i @ '']'') (String_nat i) v
       # expandItems path (Suc i) vs"

text \<open>
  \<^verbatim>\<open>buildTree\<close>, lines 31 to 69. The root starts as \<^verbatim>\<open>$\<close> with the given key; an object with
  exactly one key is replaced by that key's value (lines 34 to 44).
\<close>

fun buildTree :: "json \<Rightarrow> string \<Rightarrow> (unit, unit) node" where
  "buildTree (JObj [(k, v)]) rootKey = expand (''$.'' @ k) k v"
| "buildTree data rootKey = expand ''$'' rootKey data"

subsection \<open>Width Calculator\<close>

text \<open>
  \<^verbatim>\<open>computeWidths\<close>, lines 71 to 82. The source stores the width in the node and returns
  it; the model returns the updated node together with the returned number.
  \<open>computeWidthsEach\<close> is the \<^verbatim>\<open>forEach\<close> of lines 77 to 79 with its running \<^verbatim>\<open>sum\<close>, here \<open>acc\<close>.
\<close>

fun computeWidths :: "('w, 'p) node \<Rightarrow> (int, 'p) node \<times> int"
  and computeWidthsEach :: "('w, 'p) node list \<Rightarrow> int \<Rightarrow> (int, 'p) node list \<times> int"
where
  "computeWidths (Node i k t v cs w p) =
     (if cs = [] then (Node i k t v [] 1 p, 1)
      else (case computeWidthsEach cs 0 of
              (cs', acc) \<Rightarrow> (Node i k t v cs' (max 1 acc) p, max 1 acc)))"
| "computeWidthsEach [] acc = ([], acc)"
| "computeWidthsEach (c # cs) acc =
     (case computeWidths c of
        (c', r) \<Rightarrow> (case computeWidthsEach cs (acc + r) of
                      (cs', acc') \<Rightarrow> (c' # cs', acc')))"

subsection \<open>Layout Engine\<close>

definition H_GAP :: rat where
  "H_GAP = 200"

definition V_GAP :: rat where
  "V_GAP = 110"

text \<open>
  \<^verbatim>\<open>layoutTree\<close>, lines 84 to 93; a position is the pair \<open>(x, y)\<close>. \<open>layoutEach\<close> is the
  \<^verbatim>\<open>forEach\<close> of lines 89 to 92 with its \<^verbatim>\<open>cursor\<close>, which advances by the width read from
  the child after the child has been laid out.
\<close>

fun layoutTree :: "(int, 'p) node \<Rightarrow> rat \<Rightarrow> int \<Rightarrow> rat \<Rightarrow> rat \<Rightarrow> (int, rat \<times> rat) node"
  and layoutEach ::
    "(int, 'p) node list \<Rightarrow> rat \<Rightarrow> int \<Rightarrow> rat \<Rightarrow> rat \<Rightarrow> (int, rat \<times> rat) node list"
where
  "layoutTree (Node i k t v cs w p) xStart depth xGap yGap =
     Node i k t v (layoutEach cs xStart (depth + 1) xGap yGap) w
       (xStart + (of_int w * xGap) / 2, of_int depth * yGap)"
| "layoutEach [] cursor depth xGap yGap = []"
| "layoutEach (c # cs) cursor depth xGap yGap =
     (let c' = layoutTree c cursor depth xGap yGap
      in c' # layoutEach cs (cursor + of_int (width c') * xGap) depth xGap yGap)"

subsection \<open>Graph Mapper\<close>

text \<open>
  The records \<^verbatim>\<open>mapToFlow\<close> emits, lines 114 to 131, with the fields that depend on the
  tree: the label and tooltip texts (which print numbers) and the constant style entries
  are left out.
\<close>

record flow_node =
  fid :: string
  fposition :: "rat \<times> rat"
  background :: string
  border :: string

record flow_edge =
  eid :: string
  source :: string
  target :: string

record flow_graph =
  nodes :: "flow_node list"
  edges :: "flow_edge list"

text \<open>\<^verbatim>\<open>NODE_COLORS\<close>, lines 15 to 20.\<close>

fun NODE_COLORS :: "kind \<Rightarrow> string" where
  "NODE_COLORS KObject = ''#6C63FF''"
| "NODE_COLORS KArray = ''#27AE60''"
| "NODE_COLORS KPrimitive = ''#F39C12''"

definition NODE_COLORS_highlight :: string where
  "NODE_COLORS_highlight = ''#FF3B30''"

definition flowNode :: "string option \<Rightarrow> ('w, rat \<times> rat) node \<Rightarrow> flow_node" where
  "flowNode highlightId n =
     \<lparr> fid = node_id n,
       fposition = position n,
       background =
         (if Some (node_id n) = highlightId then NODE_COLORS_highlight
          else NODE_COLORS (node_type n)),
       border =
         (if Some (node_id n) = highlightId then ''2px solid #b00000''
          else ''2px solid rgba(0,0,0,0.18)'') \<rparr>"

definition flowEdge :: "('w, 'p) node \<Rightarrow> ('w, 'p) node \<Rightarrow> flow_edge" where
  "flowEdge n c =
     \<lparr> eid = node_id n @ ''->'' @ node_id c, source = node_id n, target = node_id c \<rparr>"

fun nodeCount :: "('w, 'p) node \<Rightarrow> nat" where
  "nodeCount (Node i k t v cs w p) = Suc (sum_list (map nodeCount cs))"

text \<open>
  The loop of lines 111 to 134. The head of the list is the top of the stack: pushing the
  children in order leaves the last child on top.
\<close>

function mapLoop ::
  "string option \<Rightarrow> ('w, rat \<times> rat) node list \<Rightarrow> flow_node list \<Rightarrow> flow_edge list \<Rightarrow> flow_graph"
where
  "mapLoop highlightId [] ns es = \<lparr> nodes = ns, edges = es \<rparr>"
| "mapLoop highlightId (n # stack) ns es =
     mapLoop highlightId (rev (children n) @ stack)
       (ns @ [flowNode highlightId n]) (es @ map (flowEdge n) (children n))"
  by pat_completeness auto
termination
proof (relation "measure (\<lambda>(h, stack, ns, es). sum_list (map nodeCount stack))")
  show "wf (measure (\<lambda>(h, stack, ns, es). sum_list (map nodeCount stack)))"
    by simp
next
  fix highlightId :: "string option" and n :: "('w, rat \<times> rat) node"
    and stack :: "('w, rat \<times> rat) node list" and ns :: "flow_node list"
    and es :: "flow_edge list"
  have "sum_list (map nodeCount (rev (children n))) < nodeCount n"
    by (cases n) (simp add: rev_map [symmetric])
  then show "((highlightId, rev (children n) @ stack, ns @ [flowNode highlightId n],
               es @ map (flowEdge n) (children n)),
              (highlightId, n # stack, ns, es))
             \<in> measure (\<lambda>(h, stack, ns, es). sum_list (map nodeCount stack))"
    by simp
qed

definition mapToFlow :: "('w, rat \<times> rat) node \<Rightarrow> string option \<Rightarrow> flow_graph" where
  "mapToFlow node highlightId = mapLoop highlightId [node] [] []"

text \<open>
  The pipeline of \<^verbatim>\<open>generate\<close> (lines 201 to 206) and of \<^verbatim>\<open>onSearch\<close> (lines 244 to 249):
  build, widths, layout from \<open>(0, 0)\<close>, map, then shift every node so that the smallest
  \<open>x\<close> becomes 40. \<^verbatim>\<open>Math.min\<close> of no arguments is \<open>Infinity\<close>, but then there is no node to
  shift either.
\<close>

definition reanchor :: "flow_node list \<Rightarrow> flow_node list" where
  "reanchor ns =
     (case ns of
        [] \<Rightarrow> []
      | n # rest \<Rightarrow>
          (let minX = fold min (map (\<lambda>m. fst (fposition m)) rest) (fst (fposition n))
           in map (\<lambda>m. m\<lparr> fposition := (fst (fposition m) - minX + 40, snd (fposition m)) \<rparr>)
                ns))"

definition buildGraph :: "json \<Rightarrow> string option \<Rightarrow> flow_graph" where
  "buildGraph data highlightId =
     (let tree = buildTree data ''root'';
          tree = fst (computeWidths tree);
          tree = layoutTree tree 0 0 H_GAP V_GAP;
          mapped = mapToFlow tree highlightId
      in mapped\<lparr> nodes := reanchor (nodes mapped) \<rparr>)"

subsection \<open>Path Query Engine: the parser\<close>

datatype token = Key string | Index int

text \<open>
  \<^verbatim>\<open>String.prototype.trim\<close>: the white space and line terminators of ECMAScript among the
  code units 0..255.
\<close>

definition isWhiteSpace :: "char \<Rightarrow> bool" where
  "isWhiteSpace c \<longleftrightarrow>
     c \<in> set [CHR 0x09, CHR 0x0A, CHR 0x0B, CHR 0x0C, CHR 0x0D, CHR 0x20, CHR 0xA0]"

definition trim :: "string \<Rightarrow> string" where
  "trim s = rev (dropWhile isWhiteSpace (rev (dropWhile isWhiteSpace s)))"

text \<open>Lines 148 and 150, and line 162: \<^verbatim>\<open>if (buf) tokens.push(buf)\<close>.\<close>

definition pushBuf :: "token list \<Rightarrow> string \<Rightarrow> token list" where
  "pushBuf tokens buf = (if buf = [] then tokens else tokens @ [Key buf])"

text \<open>
  The loop of lines 145 to 161 over the characters that are left, with \<^verbatim>\<open>tokens\<close> and
  \<^verbatim>\<open>buf\<close>. At a \<^verbatim>\<open>[\<close> the search for \<^verbatim>\<open>]\<close> starts at the bracket itself, so it looks through
  the characters after it; the loop goes on after the \<^verbatim>\<open>]\<close> it found.

  \<^verbatim>\<open>Number\<close> and \<^verbatim>\<open>Number.isInteger\<close> are built-ins of the language, not code of the
  repository: \<open>toInteger inside\<close> is \<open>Some n\<close> when \<^verbatim>\<open>Number(inside)\<close> is the integer \<open>n\<close>,
  and \<open>None\<close> when it is not an integer.
\<close>

function scanPath :: "(string \<Rightarrow> int option) \<Rightarrow> string \<Rightarrow> token list \<Rightarrow> string \<Rightarrow> token list"
where
  "scanPath toInteger [] tokens buf = pushBuf tokens buf"
| "scanPath toInteger (ch # rest) tokens buf =
     (if ch = CHR ''.'' then scanPath toInteger rest (pushBuf tokens buf) []
      else if ch = CHR ''['' then
        (if CHR '']'' \<notin> set rest then []
         else (case toInteger (takeWhile (\<lambda>c. c \<noteq> CHR '']'') rest) of
                 None \<Rightarrow> []
               | Some idx \<Rightarrow>
                   scanPath toInteger (tl (dropWhile (\<lambda>c. c \<noteq> CHR '']'') rest))
                     (pushBuf tokens buf @ [Index idx]) []))
      else scanPath toInteger rest tokens (buf @ [ch]))"
  by pat_completeness auto
termination
proof (relation "measure (\<lambda>(toInteger, s, tokens, buf). length s)")
  show "wf (measure (\<lambda>(toInteger, s, tokens, buf). length s))"
    by simp
next
  fix toInteger :: "string \<Rightarrow> int option" and ch :: char and rest :: string
    and tokens :: "token list" and buf :: string and idx :: int
  have "length (tl (dropWhile (\<lambda>c. c \<noteq> CHR '']'') rest)) \<le> length rest"
    using length_dropWhile_le [of "\<lambda>c. c \<noteq> CHR '']''" rest] by simp
  then show "((toInteger, tl (dropWhile (\<lambda>c. c \<noteq> CHR '']'') rest),
               pushBuf tokens buf @ [Index idx], []),
              (toInteger, ch # rest, tokens, buf))
             \<in> measure (\<lambda>(toInteger, s, tokens, buf). length s)"
    by simp
qed simp_all

text \<open>\<^verbatim>\<open>parsePath\<close>, lines 138 to 164.\<close>

definition stripLeading :: "char \<Rightarrow> string \<Rightarrow> string" where
  "stripLeading c s = (case s of [] \<Rightarrow> [] | x # rest \<Rightarrow> if x = c then rest else s)"

definition parsePath :: "(string \<Rightarrow> int option) \<Rightarrow> string \<Rightarrow> token list" where
  "parsePath toInteger query =
     (if query = [] then []
      else scanPath toInteger (stripLeading CHR ''.'' (stripLeading CHR ''$'' (trim query))) [] [])"

text \<open>
  A conversion for the examples below: \<^verbatim>\<open>Number\<close> on the strings that, white space
  trimmed, are empty (\<^verbatim>\<open>Number('')\<close> is 0) or an optional sign and decimal digits. The
  other spellings \<^verbatim>\<open>Number\<close> reads as integers (a fraction of zeros, an exponent, the
  prefixes \<^verbatim>\<open>0x\<close>, \<^verbatim>\<open>0o\<close>, \<^verbatim>\<open>0b\<close>) are outside it, and no statement below evaluates it on
  one of them.
\<close>

definition digitValue :: "char \<Rightarrow> nat option" where
  "digitValue c =
     (let n = (of_char c :: nat) in if 48 \<le> n \<and> n \<le> 57 then Some (n - 48) else None)"

fun digitsValue :: "string \<Rightarrow> nat \<Rightarrow> nat option" where
  "digitsValue [] acc = Some acc"
| "digitsValue (c # cs) acc =
     (case digitValue c of None \<Rightarrow> None | Some d \<Rightarrow> digitsValue cs (10 * acc + d))"

definition decimalValue :: "string \<Rightarrow> nat option" where
  "decimalValue s = (if s = [] then None else digitsValue s 0)"

definition decimalInteger :: "string \<Rightarrow> int option" where
  "decimalInteger s =
     (case trim s of
        [] \<Rightarrow> Some 0
      | c # cs \<Rightarrow>
          if c = CHR ''-'' then map_option (\<lambda>n. - int n) (decimalValue cs)
          else if c = CHR ''+'' then map_option int (decimalValue cs)
          else map_option int (decimalValue (c # cs)))"

subsection \<open>Path Query Engine: the resolver\<close>

text \<open>
  What \<^verbatim>\<open>findByPath\<close> returns: the object \<^verbatim>\<open>{ value, path }\<close> or \<^verbatim>\<open>null\<close>. The operator \<^verbatim>\<open>in\<close>
  of line 175 also finds the properties an object inherits from its prototype
  (\<^verbatim>\<open>toString\<close>, \<^verbatim>\<open>constructor\<close>, and for an array \<^verbatim>\<open>push\<close>, \<^verbatim>\<open>map\<close> and the like). Their
  names and values belong to the host library: \<open>inherited k t\<close> says that \<open>t\<close> names such
  a property of the values of kind \<open>k\<close>, and \<open>Inherited\<close> is the outcome of a walk that
  steps onto one, where the value is no JSON value any more.
\<close>

datatype found = Found json string | NotFound | Inherited

text \<open>
  The own properties of an array that a string can name: the indices below its length,
  written as \<^verbatim>\<open>String(i)\<close>, and \<^verbatim>\<open>length\<close>.
\<close>

definition arrayOwn :: "json list \<Rightarrow> string \<Rightarrow> json option" where
  "arrayOwn xs t =
     (if t = ''length'' then Some (JNum (of_nat (length xs)))
      else (case decimalValue t of
              None \<Rightarrow> None
            | Some i \<Rightarrow> if String_nat i = t \<and> i < length xs then Some (xs ! i) else None))"

text \<open>The loop of lines 169 to 179 with \<^verbatim>\<open>cur\<close> and \<^verbatim>\<open>path\<close>.\<close>

fun findLoop :: "(kind \<Rightarrow> string \<Rightarrow> bool) \<Rightarrow> json \<Rightarrow> string \<Rightarrow> token list \<Rightarrow> found" where
  "findLoop inherited cur path [] = Found cur path"
| "findLoop inherited cur path (Index t # ts) =
     (case cur of
        JArr xs \<Rightarrow>
          if t < 0 \<or> t \<ge> int (length xs) then NotFound
          else findLoop inherited (xs ! nat t) (path @ ''['' @ String_nat (nat t) @ '']'') ts
      | _ \<Rightarrow> NotFound)"
| "findLoop inherited cur path (Key t # ts) =
     (case cur of
        JObj kvs \<Rightarrow>
          (case map_of kvs t of
             Some v \<Rightarrow> findLoop inherited v (path @ ''.'' @ t) ts
           | None \<Rightarrow> if inherited KObject t then Inherited else NotFound)
      | JArr xs \<Rightarrow>
          (case arrayOwn xs t of
             Some v \<Rightarrow> findLoop inherited v (path @ ''.'' @ t) ts
           | None \<Rightarrow> if inherited KArray t then Inherited else NotFound)
      | _ \<Rightarrow> NotFound)"

definition findByPath :: "(kind \<Rightarrow> string \<Rightarrow> bool) \<Rightarrow> json \<Rightarrow> token list \<Rightarrow> found" where
  "findByPath inherited data tokens = findLoop inherited data ''$'' tokens"

subsection \<open>The search handler\<close>

text \<open>
  The state \<^verbatim>\<open>onSearch\<close> reads and writes (lines 188 to 192). \<^verbatim>\<open>raw\<close> is \<^verbatim>\<open>null\<close> until a
  document has been parsed.
\<close>

record app =
  graph :: flow_graph
  raw :: json
  query :: string
  status :: string
  highlightId :: "string option"

text \<open>\<^verbatim>\<open>!raw\<close>, line 236: the values JavaScript takes as false.\<close>

fun falsy :: "json \<Rightarrow> bool" where
  "falsy JNull = True"
| "falsy (JBool b) = (\<not> b)"
| "falsy (JNum r) = (r = 0)"
| "falsy (JStr s) = (s = [])"
| "falsy (JArr xs) = False"
| "falsy (JObj kvs) = False"

text \<open>
  \<^verbatim>\<open>onSearch\<close>, lines 235 to 259: the state after the handler has run. The deferred
  centring of the view (lines 250 to 256) belongs to the rendering surface. The result
  is \<open>None\<close> where the walk leaves the JSON values (\<open>Inherited\<close>).
\<close>

definition onSearch ::
  "(string \<Rightarrow> int option) \<Rightarrow> (kind \<Rightarrow> string \<Rightarrow> bool) \<Rightarrow> app \<Rightarrow> app option"
where
  "onSearch toInteger inherited st =
     (if falsy (raw st) then Some (st\<lparr> status := ''No tree. Paste JSON and Generate first.'' \<rparr>)
      else
        (let tokens = parsePath toInteger (query st) in
         if tokens = [] \<and> trim (query st) \<noteq> [] then Some (st\<lparr> status := ''No match found'' \<rparr>)
         else
           (case (if tokens \<noteq> [] then findByPath inherited (raw st) tokens
                  else Found (raw st) ''$'') of
              NotFound \<Rightarrow> Some (st\<lparr> status := ''No match found'', highlightId := None \<rparr>)
            | Found v path \<Rightarrow>
                Some (st\<lparr> status := ''Match found'', highlightId := Some path,
                          graph := buildGraph (raw st) (Some path) \<rparr>)
            | Inherited \<Rightarrow> None)))"

section \<open>Notions the properties are stated with\<close>

subsection \<open>Counting what a value holds\<close>

text \<open>
  The number of object keys plus array elements reachable in a value, in the words of
  the specification's node count: every key of every object and every element of every
  array, at any depth.
\<close>

fun reachable :: "json \<Rightarrow> nat"
  and reachableMembers :: "(string \<times> json) list \<Rightarrow> nat"
  and reachableElements :: "json list \<Rightarrow> nat"
where
  "reachable (JObj kvs) = reachableMembers kvs"
| "reachable (JArr xs) = reachableElements xs"
| "reachable JNull = 0"
| "reachable (JBool b) = 0"
| "reachable (JNum r) = 0"
| "reachable (JStr s) = 0"
| "reachableMembers [] = 0"
| "reachableMembers ((k, v) # kvs) = Suc (reachable v + reachableMembers kvs)"
| "reachableElements [] = 0"
| "reachableElements (v # vs) = Suc (reachable v + reachableElements vs)"

text \<open>The root is collapsed away: the document is an object with exactly one key.\<close>

definition rootCollapsed :: "json \<Rightarrow> bool" where
  "rootCollapsed v = (case v of JObj [kv] \<Rightarrow> True | _ \<Rightarrow> False)"

subsection \<open>Identifiers below a node\<close>

text \<open>
  The ids of the nodes that \<open>expand\<close> builds for a value, relative to the id of the
  value's own node: the empty text for the node itself, then \<^verbatim>\<open>.key\<close> or \<^verbatim>\<open>[index]\<close> and
  the relative id below that child, in the order of \<open>subnodes\<close>.
\<close>

fun relPaths :: "json \<Rightarrow> string list"
  and relPathsKeys :: "(string \<times> json) list \<Rightarrow> string list"
  and relPathsItems :: "nat \<Rightarrow> json list \<Rightarrow> string list"
where
  "relPaths (JObj kvs) = [] # relPathsKeys kvs"
| "relPaths (JArr xs) = [] # relPathsItems 0 xs"
| "relPaths JNull = [[]]"
| "relPaths (JBool b) = [[]]"
| "relPaths (JNum r) = [[]]"
| "relPaths (JStr s) = [[]]"
| "relPathsKeys [] = []"
| "relPathsKeys ((k, c) # kvs) = map (\<lambda>s. ''.'' @ k @ s) (relPaths c) @ relPathsKeys kvs"
| "relPathsItems i [] = []"
| "relPathsItems i (c # cs) =
     map (\<lambda>s. ''['' @ String_nat i @ '']'' @ s) (relPaths c) @ relPathsItems (Suc i) cs"

text \<open>
  A key that contains neither of the two characters that start a segment of an id, and a
  value all of whose keys are such.
\<close>

definition plainKey :: "string \<Rightarrow> bool" where
  "plainKey k \<longleftrightarrow> CHR ''.'' \<notin> set k \<and> CHR ''['' \<notin> set k"

fun plainKeys :: "json \<Rightarrow> bool"
  and plainKeysMembers :: "(string \<times> json) list \<Rightarrow> bool"
  and plainKeysElements :: "json list \<Rightarrow> bool"
where
  "plainKeys (JObj kvs) = plainKeysMembers kvs"
| "plainKeys (JArr xs) = plainKeysElements xs"
| "plainKeys JNull = True"
| "plainKeys (JBool b) = True"
| "plainKeys (JNum r) = True"
| "plainKeys (JStr s) = True"
| "plainKeysMembers [] = True"
| "plainKeysMembers ((k, v) # kvs) = (plainKey k \<and> plainKeys v \<and> plainKeysMembers kvs)"
| "plainKeysElements [] = True"
| "plainKeysElements (v # vs) = (plainKeys v \<and> plainKeysElements vs)"

definition plainChar :: "char \<Rightarrow> bool" where
  "plainChar c \<longleftrightarrow> c \<noteq> CHR ''.'' \<and> c \<noteq> CHR ''[''"

text \<open>
  The id of every child of a node is the node's id followed by \<^verbatim>\<open>.\<close> and the child's key
  (under an object) or by \<^verbatim>\<open>[\<close>, the child's index and \<^verbatim>\<open>]\<close> (under an array).
\<close>

definition childIdsExtend :: "('w, 'p) node \<Rightarrow> bool" where
  "childIdsExtend m \<longleftrightarrow>
     (\<forall>i < length (children m).
        (node_type m = KObject \<and>
           node_id (children m ! i) = node_id m @ ''.'' @ key (children m ! i)) \<or>
        (node_type m = KArray \<and>
           node_id (children m ! i) = node_id m @ ''['' @ String_nat i @ '']''))"

subsection \<open>The width rule\<close>

text \<open>
  What the Width Calculator establishes at a node: width 1 without children, the sum of
  the children's widths otherwise, and never less than 1. \<open>leafRule\<close>: a primitive node
  has no children.
\<close>

definition widthRule :: "(int, 'p) node \<Rightarrow> bool" where
  "widthRule m \<longleftrightarrow>
     (children m = [] \<longrightarrow> width m = 1) \<and>
     (children m \<noteq> [] \<longrightarrow> width m = sum_list (map width (children m))) \<and>
     1 \<le> width m"

definition leafRule :: "('w, 'p) node \<Rightarrow> bool" where
  "leafRule m \<longleftrightarrow> (node_type m = KPrimitive \<longrightarrow> children m = [])"

subsection \<open>Horizontal spans\<close>




subsection \<open>When the parser returns no token\<close>

text \<open>
  The query as the loop of \<^verbatim>\<open>parsePath\<close> sees it: trimmed, without one leading \<^verbatim>\<open>$\<close> and
  then without one leading \<^verbatim>\<open>.\<close> (lines 140 to 142).
\<close>

definition stripped :: "string \<Rightarrow> string" where
  "stripped q = stripLeading CHR ''.'' (stripLeading CHR ''$'' (trim q))"

text \<open>Nothing but \<^verbatim>\<open>.\<close> characters (the empty text included).\<close>

definition onlyDots :: "string \<Rightarrow> bool" where
  "onlyDots s \<longleftrightarrow> (\<forall>c \<in> set s. c = CHR ''.'')"

text \<open>
  A bracket fails: reading from the left and going on after the \<^verbatim>\<open>]\<close> of every bracket,
  there is a \<^verbatim>\<open>[\<close> with no \<^verbatim>\<open>]\<close> after it, or one whose contents are not an integer.
\<close>

function bracketFails :: "(string \<Rightarrow> int option) \<Rightarrow> string \<Rightarrow> bool" where
  "bracketFails toInteger [] = False"
| "bracketFails toInteger (ch # rest) =
     (if ch = CHR ''['' then
        CHR '']'' \<notin> set rest \<or>
        toInteger (takeWhile (\<lambda>c. c \<noteq> CHR '']'') rest) = None \<or>
        bracketFails toInteger (tl (dropWhile (\<lambda>c. c \<noteq> CHR '']'') rest))
      else bracketFails toInteger rest)"
  by pat_completeness auto
termination
proof (relation "measure (\<lambda>(toInteger, s). length s)")
  show "wf (measure (\<lambda>(toInteger, s). length s))"
    by simp
next
  fix toInteger :: "string \<Rightarrow> int option" and ch :: char and rest :: string
  have "length (tl (dropWhile (\<lambda>c. c \<noteq> CHR '']'') rest)) \<le> length rest"
    using length_dropWhile_le [of "\<lambda>c. c \<noteq> CHR '']''" rest] by simp
  then show "((toInteger, tl (dropWhile (\<lambda>c. c \<noteq> CHR '']'') rest)), (toInteger, ch # rest))
             \<in> measure (\<lambda>(toInteger, s). length s)"
    by simp
qed simp_all

section \<open>Properties\<close>

subsection \<open>The root of the built tree\<close>

lemma node_type_expand: "node_type (expand path k v) = detectType v"
  by (cases v) simp_all

lemma node_id_expand: "node_id (expand path k v) = path"
  by (cases v) simp_all

lemma key_expand: "key (expand path k v) = k"
  by (cases v) simp_all

lemma node_value_expand: "node_value (expand path k v) = v"
  by (cases v) simp_all

lemmas expand_fields = node_id_expand key_expand node_value_expand node_type_expand

lemma buildTree_single: "buildTree (JObj [(k, x)]) rootKey = expand (''$.'' @ k) k x"
  by simp

lemma buildTree_other:
  "(\<forall>k x. v \<noteq> JObj [(k, x)]) \<Longrightarrow> buildTree v rootKey = expand ''$'' rootKey v"
  by (cases "(v, rootKey)" rule: buildTree.cases) simp_all

text \<open>
  C1. An object with exactly one key \<open>k\<close> collapses the root: the root's key is \<open>k\<close>, its
  value and kind are those of the value at \<open>k\<close>, and its id is \<^verbatim>\<open>$.\<close> followed by \<open>k\<close>. An
  object with no key or with two or more keys, and a value that is no object, is not
  collapsed: the root id is \<^verbatim>\<open>$\<close>, with the given key, the value itself and its kind.
\<close>

theorem buildTree_root_collapse:
  "(v = JObj [(k, x)] \<longrightarrow>
      node_id (buildTree v rootKey) = ''$.'' @ k \<and> key (buildTree v rootKey) = k \<and>
      node_value (buildTree v rootKey) = x \<and> node_type (buildTree v rootKey) = detectType x)
   \<and> ((\<exists>kvs. v = JObj kvs \<and> length kvs \<noteq> 1) \<or> (\<forall>kvs. v \<noteq> JObj kvs) \<longrightarrow>
      node_id (buildTree v rootKey) = ''$'' \<and> key (buildTree v rootKey) = rootKey \<and>
      node_value (buildTree v rootKey) = v \<and> node_type (buildTree v rootKey) = detectType v)"
proof (intro conjI impI)
  assume single: "v = JObj [(k, x)]"
  show "node_id (buildTree v rootKey) = ''$.'' @ k" "key (buildTree v rootKey) = k"
    "node_value (buildTree v rootKey) = x" "node_type (buildTree v rootKey) = detectType x"
    unfolding single buildTree_single by (rule expand_fields)+
next
  assume "(\<exists>kvs. v = JObj kvs \<and> length kvs \<noteq> 1) \<or> (\<forall>kvs. v \<noteq> JObj kvs)"
  then have "\<forall>k x. v \<noteq> JObj [(k, x)]"
    by auto
  then have other: "buildTree v rootKey = expand ''$'' rootKey v"
    by (rule buildTree_other)
  show "node_id (buildTree v rootKey) = ''$''" "key (buildTree v rootKey) = rootKey"
    "node_value (buildTree v rootKey) = v" "node_type (buildTree v rootKey) = detectType v"
    unfolding other by (rule expand_fields)+
qed

theorem buildTree_root_collapse_witness:
  "node_id (buildTree (JObj [(''a'', JObj [(''b'', JNum 1)])]) ''root'') = ''$.a'' \<and>
   key (buildTree (JObj [(''a'', JObj [(''b'', JNum 1)])]) ''root'') = ''a'' \<and>
   node_type (buildTree (JObj [(''a'', JObj [(''b'', JNum 1)])]) ''root'') = KObject \<and>
   node_id (buildTree (JObj [(''x'', JNum 1), (''y'', JNum 2)]) ''root'') = ''$'' \<and>
   key (buildTree (JObj [(''x'', JNum 1), (''y'', JNum 2)]) ''root'') = ''root'' \<and>
   node_id (buildTree (JObj []) ''root'') = ''$'' \<and>
   node_id (buildTree (JArr [JNum 1, JNum 2, JNum 3]) ''root'') = ''$'' \<and>
   node_type (buildTree (JArr [JNum 1, JNum 2, JNum 3]) ''root'') = KArray"
  using buildTree_root_collapse [of "JObj [(''a'', JObj [(''b'', JNum 1)])]" "''a''"
          "JObj [(''b'', JNum 1)]" "''root''"]
    buildTree_root_collapse [of "JObj [(''x'', JNum 1), (''y'', JNum 2)]" k x "''root''"]
    buildTree_root_collapse [of "JObj []" k x "''root''"]
    buildTree_root_collapse [of "JArr [JNum 1, JNum 2, JNum 3]" k x "''root''"]
  by simp

subsection \<open>Path queries\<close>

lemmas parsePath_eval =
  parsePath_def trim_def isWhiteSpace_def stripLeading_def pushBuf_def

text \<open>
  C8. Round trip at the root: for every value \<open>v\<close>, the query \<^verbatim>\<open>$\<close> and the empty query,
  parsed by \<^verbatim>\<open>parsePath\<close> and resolved by \<^verbatim>\<open>findByPath\<close>, give \<open>v\<close> itself with the
  canonical id \<^verbatim>\<open>$\<close>.
\<close>

theorem root_query_round_trip:
  "findByPath inherited v (parsePath toInteger ''$'') = Found v ''$'' \<and>
   findByPath inherited v (parsePath toInteger []) = Found v ''$''"
  by (simp add: parsePath_eval findByPath_def)

text \<open>
  C6, at an input where the code leaves the claim. The query \<^verbatim>\<open>$.0\<close> parses to the string
  token \<^verbatim>\<open>0\<close>; against the array \<^verbatim>\<open>[5]\<close> line 175 lets it pass, since an array is an
  object that has the property \<^verbatim>\<open>0\<close>, and the walk succeeds with the path \<^verbatim>\<open>$.0\<close>, which is
  the id of no node (the element's id is \<^verbatim>\<open>$[0]\<close>).
\<close>

theorem findByPath_string_token_on_array:
  "parsePath toInteger ''$.0'' = [Key ''0''] \<and>
   findByPath inherited (JArr [JNum 5]) [Key ''0''] = Found (JNum 5) ''$.0'' \<and>
   map node_id (subnodes (buildTree (JArr [JNum 5]) ''root'')) = [''$'', ''$[0]'']"
  by (simp add: parsePath_eval findByPath_def arrayOwn_def decimalValue_def digitValue_def
      digitChar_def String_nat.simps)

text \<open>
  What the two branches of the loop do require of a token that passes: an integer token an
  array with the index in bounds, a string token an object, or an array, with that own
  property.
\<close>

lemma findLoop_index_token:
  "findLoop inherited cur path (Index t # ts) \<noteq> NotFound \<Longrightarrow>
   \<exists>xs. cur = JArr xs \<and> 0 \<le> t \<and> t < int (length xs) \<and>
        findLoop inherited cur path (Index t # ts)
          = findLoop inherited (xs ! nat t) (path @ ''['' @ String_nat (nat t) @ '']'') ts"
  by (cases cur) (auto split: if_splits)

lemma findLoop_key_token:
  "findLoop inherited cur path (Key t # ts) = Found v p \<Longrightarrow>
   (\<exists>kvs x. cur = JObj kvs \<and> map_of kvs t = Some x \<and>
        findLoop inherited x (path @ ''.'' @ t) ts = Found v p) \<or>
   (\<exists>xs x. cur = JArr xs \<and> arrayOwn xs t = Some x \<and>
        findLoop inherited x (path @ ''.'' @ t) ts = Found v p)"
  by (cases cur) (auto split: option.splits if_splits)

lemma findByPath_inherited_name:
  "inherited KObject ''toString'' \<Longrightarrow>
   findByPath inherited (JObj []) [Key ''toString''] = Inherited"
  by (simp add: findByPath_def)

subsection \<open>The search handler\<close>

text \<open>
  C9, at an input where the code leaves the claim. After a successful search for \<^verbatim>\<open>a\<close> the
  highlight id is \<^verbatim>\<open>$.a\<close>. A search for \<^verbatim>\<open>[\<close>, whose bracket is not closed, returns at line
  238 with the status message only: the graph is unchanged, and the highlight id is
  still \<^verbatim>\<open>$.a\<close>, not \<^verbatim>\<open>null\<close>.
\<close>

theorem onSearch_tokenization_failure_keeps_highlight:
  "onSearch toInteger inherited
     \<lparr> graph = g, raw = JObj [(''a'', JNum 1), (''b'', JNum 2)], query = ''['',
       status = ''Match found'', highlightId = Some ''$.a'' \<rparr>
   = Some \<lparr> graph = g, raw = JObj [(''a'', JNum 1), (''b'', JNum 2)], query = ''['',
            status = ''No match found'', highlightId = Some ''$.a'' \<rparr>"
  by (simp add: onSearch_def parsePath_eval)

text \<open>The state that search starts from is the one a successful search for \<^verbatim>\<open>a\<close> leaves.\<close>

lemma onSearch_match_sets_highlight:
  "onSearch toInteger inherited
     \<lparr> graph = g, raw = JObj [(''a'', JNum 1), (''b'', JNum 2)], query = ''a'',
       status = [], highlightId = None \<rparr>
   = Some \<lparr> graph = buildGraph (JObj [(''a'', JNum 1), (''b'', JNum 2)]) (Some ''$.a''),
            raw = JObj [(''a'', JNum 1), (''b'', JNum 2)], query = ''a'',
            status = ''Match found'', highlightId = Some ''$.a'' \<rparr>"
  by (simp add: onSearch_def parsePath_eval findByPath_def)

text \<open>
  The sibling branch, line 240: when the tokens do not resolve against the document, the
  highlight id is cleared and the graph is unchanged.
\<close>

lemma onSearch_not_found_clears_highlight:
  assumes "\<not> falsy (raw st)" and "parsePath toInteger (query st) \<noteq> []"
    and "findByPath inherited (raw st) (parsePath toInteger (query st)) = NotFound"
  shows "onSearch toInteger inherited st
         = Some (st\<lparr> status := ''No match found'', highlightId := None \<rparr>)"
  using assms by (simp add: onSearch_def)

lemma onSearch_not_found_example:
  "onSearch decimalInteger inherited
     \<lparr> graph = g, raw = JObj [(''a'', JNum 1), (''b'', JNum 2)], query = ''foo.bar'',
       status = ''Match found'', highlightId = Some ''$.a'' \<rparr>
   = (if inherited KObject ''foo'' then None
      else Some \<lparr> graph = g, raw = JObj [(''a'', JNum 1), (''b'', JNum 2)],
                  query = ''foo.bar'', status = ''No match found'', highlightId = None \<rparr>)"
  by (simp add: onSearch_def parsePath_eval findByPath_def)

subsection \<open>Node and edge counts\<close>

lemma nodeCount_children: "nodeCount n = Suc (sum_list (map nodeCount (children n)))"
  by (cases n) simp

lemma nodeCount_expand:
  "nodeCount (expand path k v) = Suc (reachable v)"
  "sum_list (map nodeCount (expandKeys path kvs)) = reachableMembers kvs"
  "sum_list (map nodeCount (expandItems path i xs)) = reachableElements xs"
  by (induction path k v and path kvs and path i xs rule: expand_expandKeys_expandItems.induct)
    simp_all

lemma computeWidthsEach_eq:
  "computeWidthsEach cs acc
     = (map (\<lambda>c. fst (computeWidths c)) cs, acc + sum_list (map (\<lambda>c. snd (computeWidths c)) cs))"
  by (induction cs arbitrary: acc) (simp_all split: prod.splits)

lemma computeWidths_eq:
  "computeWidths (Node i k t v cs w p)
     = (Node i k t v (map (\<lambda>c. fst (computeWidths c)) cs)
          (max 1 (sum_list (map (\<lambda>c. snd (computeWidths c)) cs))) p,
        max 1 (sum_list (map (\<lambda>c. snd (computeWidths c)) cs)))"
  by (simp add: computeWidthsEach_eq)

lemma snd_computeWidths: "snd (computeWidths n) = width (fst (computeWidths n))"
  by (cases n) (simp only: computeWidths_eq fst_conv snd_conv node.sel)

lemma subnodes_ids_computeWidths:
  "map node_id (subnodes (fst (computeWidths n))) = map node_id (subnodes n)"
proof (induction n)
  case (Node i k t v cs w p)
  then have "map (\<lambda>c. map node_id (subnodes (fst (computeWidths c)))) cs
             = map (\<lambda>c. map node_id (subnodes c)) cs"
    by simp
  then show ?case
    by (simp only: computeWidths_eq fst_conv subnodes.simps list.map map_concat map_map comp_def node.sel)
qed

lemma subnodes_ids_layoutEach:
  assumes "\<And>c x d. c \<in> set cs \<Longrightarrow>
             map node_id (subnodes (layoutTree c x d xGap yGap)) = map node_id (subnodes c)"
  shows "map node_id (concat (map subnodes (layoutEach cs cursor depth xGap yGap)))
         = map node_id (concat (map subnodes cs))"
  using assms by (induction cs arbitrary: cursor) (simp_all add: Let_def)

lemma subnodes_ids_layoutTree:
  "map node_id (subnodes (layoutTree n xStart depth xGap yGap)) = map node_id (subnodes n)"
proof (induction n arbitrary: xStart depth)
  case (Node i k t v cs w p)
  then show ?case
    by (simp add: subnodes_ids_layoutEach)
qed

lemma length_subnodes: "length (subnodes n) = nodeCount n"
proof (induction n)
  case (Node i k t v cs w p)
  then have "map (\<lambda>c. length (subnodes c)) cs = map nodeCount cs"
    by simp
  then show ?case
    by (simp add: length_concat comp_def del: map_eq_conv)
qed

lemma length_subnodes_list:
  "length (concat (map subnodes cs)) = sum_list (map nodeCount cs)"
  by (simp add: length_concat comp_def length_subnodes)

lemma mapLoop_nodes_length:
  "length (nodes (mapLoop h stack ns es)) = length ns + sum_list (map nodeCount stack)"
proof (induction h stack ns es rule: mapLoop.induct)
  case (1 h ns es)
  then show ?case by simp
next
  case (2 h n stack ns es)
  then show ?case
    by (simp add: rev_map [symmetric] nodeCount_children [of n])
qed

lemma mapLoop_edges_length:
  "length (edges (mapLoop h stack ns es)) + length stack
     = length es + sum_list (map nodeCount stack)"
proof (induction h stack ns es rule: mapLoop.induct)
  case (1 h ns es)
  then show ?case by simp
next
  case (2 h n stack ns es)
  then show ?case
    by (simp add: rev_map [symmetric] nodeCount_children [of n])
qed

lemma mapLoop_fids:
  "set (map fid (nodes (mapLoop h stack ns es)))
     = set (map fid ns) \<union> set (map node_id (concat (map subnodes stack)))"
proof (induction h stack ns es rule: mapLoop.induct)
  case (1 h ns es)
  then show ?case by simp
next
  case (2 h n stack ns es)
  have "subnodes n = n # concat (map subnodes (children n))" by (cases n) simp
  with 2 show ?case
    by (auto simp: flowNode_def)
qed

lemma reanchor_fids: "map fid (reanchor ns) = map fid ns"
  by (cases ns) (simp_all add: reanchor_def Let_def)

lemma nodeCount_computeWidths: "nodeCount (fst (computeWidths n)) = nodeCount n"
  using arg_cong [OF subnodes_ids_computeWidths [of n], of length]
  by (simp add: length_subnodes)

lemma nodeCount_layoutTree: "nodeCount (layoutTree n xStart depth xGap yGap) = nodeCount n"
  using arg_cong [OF subnodes_ids_layoutTree [of n xStart depth xGap yGap], of length]
  by (simp add: length_subnodes)

lemma length_reanchor: "length (reanchor ns) = length ns"
  using arg_cong [OF reanchor_fids [of ns], of length] by simp

lemma mapToFlow_counts:
  "length (nodes (mapToFlow t h)) = nodeCount t"
  "Suc (length (edges (mapToFlow t h))) = nodeCount t"
  using mapLoop_edges_length [of h "[t]" "[]" "[]"]
  by (simp_all add: mapToFlow_def mapLoop_nodes_length del: mapLoop.simps)

lemma buildGraph_counts:
  "length (nodes (buildGraph v h)) = nodeCount (buildTree v ''root'')"
  "Suc (length (edges (buildGraph v h))) = nodeCount (buildTree v ''root'')"
  by (simp_all add: buildGraph_def Let_def length_reanchor mapToFlow_counts
      nodeCount_layoutTree nodeCount_computeWidths)

lemma nodeCount_buildTree:
  "nodeCount (buildTree v rootKey) = reachable v + (if rootCollapsed v then 0 else 1)"
proof (cases "\<exists>k x. v = JObj [(k, x)]")
  case True
  then show ?thesis
    by (auto simp: rootCollapsed_def nodeCount_expand)
next
  case False
  then have "\<not> rootCollapsed v"
    by (auto simp: rootCollapsed_def split: json.splits list.splits)
  with False show ?thesis
    by (simp add: buildTree_other nodeCount_expand)
qed

text \<open>
  C4. For every value, the pipeline without a highlight produces as many nodes as the
  value has reachable object keys and array elements, plus one when the root is not
  collapsed away, and one edge less than nodes.
\<close>

theorem buildGraph_node_edge_counts:
  "length (nodes (buildGraph v None)) = reachable v + (if rootCollapsed v then 0 else 1) \<and>
   Suc (length (edges (buildGraph v None))) = length (nodes (buildGraph v None))"
  by (simp only: buildGraph_counts nodeCount_buildTree)

theorem buildGraph_node_edge_counts_witness:
  "length (nodes (buildGraph (JObj [(''a'', JObj [(''b'', JNum 1)])]) None)) = 2 \<and>
   length (edges (buildGraph (JObj [(''a'', JObj [(''b'', JNum 1)])]) None)) = 1 \<and>
   length (nodes (buildGraph (JObj [(''x'', JNum 1), (''y'', JNum 2)]) None)) = 3 \<and>
   length (edges (buildGraph (JObj [(''x'', JNum 1), (''y'', JNum 2)]) None)) = 2"
  using buildGraph_node_edge_counts [of "JObj [(''a'', JObj [(''b'', JNum 1)])]"]
    buildGraph_node_edge_counts [of "JObj [(''x'', JNum 1), (''y'', JNum 2)]"]
  by (simp add: rootCollapsed_def)

subsection \<open>Node identifiers\<close>

lemma ids_expand:
  "map node_id (subnodes (expand path k v)) = map ((@) path) (relPaths v)"
  "map node_id (concat (map subnodes (expandKeys path kvs))) = map ((@) path) (relPathsKeys kvs)"
  "map node_id (concat (map subnodes (expandItems path i xs)))
     = map ((@) path) (relPathsItems i xs)"
  by (induction path k v and path kvs and path i xs rule: expand_expandKeys_expandItems.induct)
    (simp_all add: comp_def)

text \<open>The decimal text of an index determines the index and holds no bracket.\<close>

lemma digitValue_digitChar: "d < 10 \<Longrightarrow> digitValue (digitChar d) = Some d"
proof -
  assume "d < 10"
  then have "d \<in> {0, 1, 2, 3, 4, 5, 6, 7, 8, 9}" by auto
  then show ?thesis
    by (auto simp: digitValue_def digitChar_def)
qed

lemma digitChar_not_bracket:
  assumes "d < 10"
  shows "digitChar d \<noteq> CHR '']''" and "CHR '']'' \<noteq> digitChar d"
proof -
  from assms have "d \<in> {0, 1, 2, 3, 4, 5, 6, 7, 8, 9}" by auto
  then show "digitChar d \<noteq> CHR '']''" and "CHR '']'' \<noteq> digitChar d"
    by (auto simp: digitChar_def)
qed

lemma digitsValue_snoc:
  "digitsValue (cs @ [c]) acc
     = (case digitsValue cs acc of
          None \<Rightarrow> None
        | Some m \<Rightarrow> (case digitValue c of None \<Rightarrow> None | Some d \<Rightarrow> Some (10 * m + d)))"
  by (induction cs arbitrary: acc) (simp_all split: option.splits)

lemma digitsValue_String_nat: "digitsValue (String_nat n) 0 = Some n"
proof (induction n rule: String_nat.induct)
  case (1 n)
  show ?case
  proof (cases "n < 10")
    case True
    then show ?thesis
      by (subst String_nat.simps) (simp add: digitValue_digitChar)
  next
    case False
    with 1 have "digitsValue (String_nat (n div 10)) 0 = Some (n div 10)"
      by simp
    then show ?thesis
      using False
      by (subst String_nat.simps) (simp add: digitsValue_snoc digitValue_digitChar)
  qed
qed

lemma String_nat_inj: "String_nat i = String_nat j \<Longrightarrow> i = j"
  by (metis digitsValue_String_nat option.inject)

lemma String_nat_no_bracket: "CHR '']'' \<notin> set (String_nat n)"
proof (induction n rule: String_nat.induct)
  case (1 n)
  show ?case
  proof (cases "n < 10")
    case True
    then show ?thesis
      by (subst String_nat.simps) (simp add: digitChar_not_bracket)
  next
    case False
    with 1 have "CHR '']'' \<notin> set (String_nat (n div 10))"
      by simp
    then show ?thesis
      using False
      by (subst String_nat.simps) (simp add: digitChar_not_bracket)
  qed
qed

lemma plainKey_iff: "plainKey k \<longleftrightarrow> (\<forall>c \<in> set k. plainChar c)"
  by (auto simp: plainKey_def plainChar_def)

lemma relPaths_start:
  "\<forall>s \<in> set (relPaths v). takeWhile plainChar s = []"
  "\<forall>s \<in> set (relPathsKeys kvs).
     \<exists>k r. k \<in> fst ` set kvs \<and> s = CHR ''.'' # k @ r \<and> takeWhile plainChar r = []"
  "\<forall>s \<in> set (relPathsItems i xs). \<exists>j r. i \<le> j \<and> s = CHR ''['' # String_nat j @ CHR '']'' # r"
proof (induction v and kvs and i xs rule: relPaths_relPathsKeys_relPathsItems.induct)
  case (1 kvs)
  show ?case
  proof
    fix s assume "s \<in> set (relPaths (JObj kvs))"
    then consider "s = []" | "s \<in> set (relPathsKeys kvs)"
      by auto
    then show "takeWhile plainChar s = []"
    proof cases
      case 1
      then show ?thesis by simp
    next
      case 2
      with "1.IH" obtain k r where "s = CHR ''.'' # k @ r"
        by blast
      then show ?thesis by (simp add: plainChar_def)
    qed
  qed
next
  case (2 xs)
  show ?case
  proof
    fix s assume "s \<in> set (relPaths (JArr xs))"
    then consider "s = []" | "s \<in> set (relPathsItems 0 xs)"
      by auto
    then show "takeWhile plainChar s = []"
    proof cases
      case 1
      then show ?thesis by simp
    next
      case 2
      with "2.IH" obtain j r where "s = CHR ''['' # String_nat j @ CHR '']'' # r"
        by blast
      then show ?thesis by (simp add: plainChar_def)
    qed
  qed
next
  case (8 k c kvs)
  show ?case
  proof
    fix s assume "s \<in> set (relPathsKeys ((k, c) # kvs))"
    then consider (hd) r where "r \<in> set (relPaths c)" "s = CHR ''.'' # k @ r"
      | (tl) "s \<in> set (relPathsKeys kvs)"
      by auto
    then show "\<exists>k' r. k' \<in> fst ` set ((k, c) # kvs) \<and> s = CHR ''.'' # k' @ r
                 \<and> takeWhile plainChar r = []"
    proof cases
      case hd
      with "8.IH"(1) have "takeWhile plainChar r = []" by blast
      with hd show ?thesis
        by (intro exI [of _ k] exI [of _ r]) simp
    next
      case tl
      from bspec [OF "8.IH"(2) tl] obtain k' where
        "\<exists>r. k' \<in> fst ` set kvs \<and> s = CHR ''.'' # k' @ r \<and> takeWhile plainChar r = []" ..
      then obtain r where
        "k' \<in> fst ` set kvs \<and> s = CHR ''.'' # k' @ r \<and> takeWhile plainChar r = []" ..
      then show ?thesis
        by (intro exI [of _ k'] exI [of _ r]) simp
    qed
  qed
next
  case (10 i c cs)
  show ?case
  proof
    fix s assume "s \<in> set (relPathsItems i (c # cs))"
    then consider (hd) r where "r \<in> set (relPaths c)" "s = CHR ''['' # String_nat i @ CHR '']'' # r"
      | (tl) "s \<in> set (relPathsItems (Suc i) cs)"
      by (auto)
    then show "\<exists>j r. i \<le> j \<and> s = CHR ''['' # String_nat j @ CHR '']'' # r"
    proof cases
      case hd
      then show ?thesis
        by (intro exI [of _ i] exI [of _ r]) simp
    next
      case tl
      from bspec [OF "10.IH"(2) tl] obtain j where
        "\<exists>r. Suc i \<le> j \<and> s = CHR ''['' # String_nat j @ CHR '']'' # r" ..
      then obtain r where "Suc i \<le> j \<and> s = CHR ''['' # String_nat j @ CHR '']'' # r" ..
      then show ?thesis
        by (intro exI [of _ j] exI [of _ r]) simp
    qed
  qed
qed simp_all

lemma takeWhile_key:
  assumes "plainKey k" and "takeWhile plainChar r = []"
  shows "takeWhile plainChar (k @ r) = k"
  using assms by (simp add: plainKey_iff)

lemma key_segment_inj:
  assumes "plainKey k" "plainKey k'" "takeWhile plainChar r = []" "takeWhile plainChar r' = []"
    and "k @ r = k' @ r'"
  shows "k = k'"
  using takeWhile_key [OF assms(1,3)] takeWhile_key [OF assms(2,4)] assms(5) by simp

lemma index_segment_inj:
  assumes "String_nat i @ CHR '']'' # r = String_nat j @ CHR '']'' # r'"
  shows "i = j"
proof -
  have "takeWhile (\<lambda>c. c \<noteq> CHR '']'') (String_nat n @ CHR '']'' # t) = String_nat n" for n t
  proof -
    have "x \<noteq> CHR '']''" if "x \<in> set (String_nat n)" for x
      using that String_nat_no_bracket [of n] by auto
    then show ?thesis
      by (simp add: takeWhile_append2)
  qed
  from this [of i r] this [of j r'] assms have "String_nat i = String_nat j"
    by (simp)
  then show ?thesis
    by (rule String_nat_inj)
qed

lemma plainKeysMembers_key: "plainKeysMembers kvs \<Longrightarrow> (k, c) \<in> set kvs \<Longrightarrow> plainKey k"
  by (induction kvs) auto

lemma distinct_relPaths:
  "wf_json v \<Longrightarrow> plainKeys v \<Longrightarrow> distinct (relPaths v)"
  "distinct (map fst kvs) \<Longrightarrow> wf_members kvs \<Longrightarrow> plainKeysMembers kvs
     \<Longrightarrow> distinct (relPathsKeys kvs)"
  "wf_elements xs \<Longrightarrow> plainKeysElements xs \<Longrightarrow> distinct (relPathsItems i xs)"
proof (induction v and kvs and i xs rule: relPaths_relPathsKeys_relPathsItems.induct)
  case (1 kvs)
  have "[] \<notin> set (relPathsKeys kvs)"
  proof
    assume "[] \<in> set (relPathsKeys kvs)"
    from bspec [OF relPaths_start(2) this] show False by simp
  qed
  with 1 show ?case by simp
next
  case (2 xs)
  have "[] \<notin> set (relPathsItems 0 xs)"
  proof
    assume "[] \<in> set (relPathsItems 0 xs)"
    from bspec [OF relPaths_start(3) this] show False by simp
  qed
  with 2 show ?case by simp
next
  case (8 k c kvs)
  have k: "plainKey k" and kc: "k \<notin> fst ` set kvs"
    using "8.prems" by simp_all
  have "distinct (relPaths c)" and rest: "distinct (relPathsKeys kvs)"
    using 8 by simp_all
  then have here: "distinct (map (\<lambda>s. ''.'' @ k @ s) (relPaths c))"
    by (simp add: distinct_map inj_on_def)
  have disj: "CHR ''.'' # k @ r \<notin> set (relPathsKeys kvs)" if r: "r \<in> set (relPaths c)" for r
  proof
    assume mem: "CHR ''.'' # k @ r \<in> set (relPathsKeys kvs)"
    from bspec [OF relPaths_start(2) mem] obtain k' where
      "\<exists>r'. k' \<in> fst ` set kvs \<and> CHR ''.'' # k @ r = CHR ''.'' # k' @ r'
         \<and> takeWhile plainChar r' = []" ..
    then obtain r' where
      *: "k' \<in> fst ` set kvs \<and> CHR ''.'' # k @ r = CHR ''.'' # k' @ r'
         \<and> takeWhile plainChar r' = []" ..
    then have k': "k' \<in> fst ` set kvs" and eq: "k @ r = k' @ r'"
      and r': "takeWhile plainChar r' = []"
      by simp_all
    from k' obtain c' where "(k', c') \<in> set kvs"
      by force
    moreover have "plainKeysMembers kvs"
      using "8.prems"(3) by simp
    ultimately have "plainKey k'"
      by (rule plainKeysMembers_key [rotated])
    moreover have "takeWhile plainChar r = []"
      using bspec [OF relPaths_start(1) r] .
    ultimately have "k = k'"
      using k r' eq key_segment_inj [of k k' r r'] by simp
    with k' kc show False
      by simp
  qed
  have "set (map (\<lambda>s. ''.'' @ k @ s) (relPaths c)) \<inter> set (relPathsKeys kvs) = {}"
  proof (rule ccontr)
    assume "set (map (\<lambda>s. ''.'' @ k @ s) (relPaths c)) \<inter> set (relPathsKeys kvs) \<noteq> {}"
    then obtain e where "e \<in> set (map (\<lambda>s. ''.'' @ k @ s) (relPaths c))"
      and e: "e \<in> set (relPathsKeys kvs)"
      by fastforce
    then obtain r where "r \<in> set (relPaths c)" "e = CHR ''.'' # k @ r"
      by force
    with disj e show False
      by simp
  qed
  with here rest show ?case
    by (simp only: relPathsKeys.simps distinct_append simp_thms)
next
  case (10 i c cs)
  have "distinct (relPaths c)" and rest: "distinct (relPathsItems (Suc i) cs)"
    using 10 by simp_all
  then have here: "distinct (map (\<lambda>s. ''['' @ String_nat i @ '']'' @ s) (relPaths c))"
    by (simp add: distinct_map inj_on_def)
  have disj: "CHR ''['' # String_nat i @ CHR '']'' # r \<notin> set (relPathsItems (Suc i) cs)" for r
  proof
    assume mem: "CHR ''['' # String_nat i @ CHR '']'' # r \<in> set (relPathsItems (Suc i) cs)"
    from bspec [OF relPaths_start(3) mem] obtain j where
      "\<exists>r'. Suc i \<le> j \<and>
         CHR ''['' # String_nat i @ CHR '']'' # r = CHR ''['' # String_nat j @ CHR '']'' # r'" ..
    then obtain r' where
      *: "Suc i \<le> j \<and>
         CHR ''['' # String_nat i @ CHR '']'' # r = CHR ''['' # String_nat j @ CHR '']'' # r'" ..
    then have "Suc i \<le> j" and "String_nat i @ CHR '']'' # r = String_nat j @ CHR '']'' # r'"
      by simp_all
    then show False
      using index_segment_inj [of i r j r'] by simp
  qed
  have "set (map (\<lambda>s. ''['' @ String_nat i @ '']'' @ s) (relPaths c))
          \<inter> set (relPathsItems (Suc i) cs) = {}"
  proof (rule ccontr)
    assume "set (map (\<lambda>s. ''['' @ String_nat i @ '']'' @ s) (relPaths c))
              \<inter> set (relPathsItems (Suc i) cs) \<noteq> {}"
    then obtain e where "e \<in> set (map (\<lambda>s. ''['' @ String_nat i @ '']'' @ s) (relPaths c))"
      and e: "e \<in> set (relPathsItems (Suc i) cs)"
      by fastforce
    then obtain r where "e = CHR ''['' # String_nat i @ CHR '']'' # r"
      by force
    with disj e show False
      by simp
  qed
  with here rest show ?case
    by (simp only: relPathsItems.simps distinct_append simp_thms)
qed simp_all


lemma expandKeys_nth:
  "length (expandKeys path kvs) = length kvs"
  "j < length kvs \<Longrightarrow>
     node_id (expandKeys path kvs ! j) = path @ ''.'' @ key (expandKeys path kvs ! j)"
proof -
  show "length (expandKeys path kvs) = length kvs"
    by (induction kvs) auto
  show "j < length kvs \<Longrightarrow>
     node_id (expandKeys path kvs ! j) = path @ ''.'' @ key (expandKeys path kvs ! j)"
  proof (induction kvs arbitrary: j)
    case Nil
    then show ?case by simp
  next
    case (Cons kv kvs)
    obtain k c where kv: "kv = (k, c)" by (cases kv)
    show ?case
    proof (cases j)
      case 0
      then show ?thesis by (simp add: kv expand_fields)
    next
      case (Suc j')
      with Cons show ?thesis by (simp add: kv)
    qed
  qed
qed

lemma expandItems_nth:
  "length (expandItems path i xs) = length xs"
  "j < length xs \<Longrightarrow>
     node_id (expandItems path i xs ! j) = path @ ''['' @ String_nat (i + j) @ '']''"
proof -
  show "length (expandItems path i xs) = length xs"
    by (induction xs arbitrary: i) auto
  show "j < length xs \<Longrightarrow>
     node_id (expandItems path i xs ! j) = path @ ''['' @ String_nat (i + j) @ '']''"
  proof (induction xs arbitrary: i j)
    case Nil
    then show ?case by simp
  next
    case (Cons c cs)
    show ?case
    proof (cases j)
      case 0
      then show ?thesis by (simp add: expand_fields)
    next
      case (Suc j')
      with Cons.prems have "j' < length cs" by simp
      from Cons.IH [OF this, of "Suc i"] Suc show ?thesis by simp
    qed
  qed
qed

lemma childIdsExtend_expand: "childIdsExtend (expand path k v)"
  by (cases v) (simp_all add: childIdsExtend_def expandKeys_nth expandItems_nth)

lemma childIdsExtend_subnodes:
  "\<forall>m \<in> set (subnodes (expand path k v)). childIdsExtend m"
  "\<forall>m \<in> set (concat (map subnodes (expandKeys path kvs))). childIdsExtend m"
  "\<forall>m \<in> set (concat (map subnodes (expandItems path i xs))). childIdsExtend m"
proof (induction path k v and path kvs and path i xs rule: expand_expandKeys_expandItems.induct)
  case (1 path k kvs)
  have "childIdsExtend (expand path k (JObj kvs))"
    by (rule childIdsExtend_expand)
  with 1 show ?case by simp
next
  case (2 path k xs)
  have "childIdsExtend (expand path k (JArr xs))"
    by (rule childIdsExtend_expand)
  with 2 show ?case by simp
next
  case (8 path k childVal kvs)
  then show ?case by (simp add: ball_Un)
next
  case (10 path i v vs)
  then show ?case by (simp add: ball_Un)
qed (simp_all add: childIdsExtend_def)

lemma child_id_strict_extension:
  assumes "childIdsExtend m" and "i < length (children m)"
  shows "strict_prefix (node_id m) (node_id (children m ! i))"
  using assms unfolding childIdsExtend_def by (auto simp: strict_prefix_def prefix_def)

lemma buildTree_expand: "\<exists>path k x. buildTree v rootKey = expand path k x \<and> (x = v \<or> (\<exists>k. v = JObj [(k, x)]))"
proof (cases "\<exists>k x. v = JObj [(k, x)]")
  case True
  then show ?thesis using buildTree_single by blast
next
  case False
  then show ?thesis using buildTree_other [of v rootKey] by blast
qed

lemma buildTree_ids_distinct:
  assumes "wf_json v" and "plainKeys v"
  shows "distinct (map node_id (subnodes (buildTree v rootKey)))"
proof (cases "\<exists>k x. v = JObj [(k, x)]")
  case True
  then obtain k x where v: "v = JObj [(k, x)]" by blast
  with assms have "distinct (relPaths x)"
    by (simp add: distinct_relPaths)
  then show ?thesis
    by (simp only: v buildTree_single ids_expand) (simp add: distinct_map inj_on_def)
next
  case False
  then have "buildTree v rootKey = expand ''$'' rootKey v"
    by (simp add: buildTree_other)
  moreover from assms have "distinct (relPaths v)"
    by (simp add: distinct_relPaths)
  ultimately show ?thesis
    by (simp only: ids_expand) (simp add: distinct_map inj_on_def)
qed

text \<open>
  C5, as the code has it. In every tree \<^verbatim>\<open>buildTree\<close> produces, the id of each child is its
  parent's id followed by \<^verbatim>\<open>.\<close> and the key (object children) or by \<^verbatim>\<open>[\<close>, the index and
  \<^verbatim>\<open>]\<close> (array children), a strict extension of the parent's id. The ids are pairwise
  distinct when no object key of the value contains \<^verbatim>\<open>.\<close> or \<^verbatim>\<open>[\<close> (the keys of each object
  being distinct, as they are in every parsed value).
\<close>

theorem buildTree_ids_extend_and_distinct:
  "(\<forall>m \<in> set (subnodes (buildTree v rootKey)).
      childIdsExtend m \<and>
      (\<forall>i < length (children m). strict_prefix (node_id m) (node_id (children m ! i))))
   \<and> (wf_json v \<and> plainKeys v \<longrightarrow> distinct (map node_id (subnodes (buildTree v rootKey))))"
proof -
  obtain path k x where "buildTree v rootKey = expand path k x"
    using buildTree_expand by blast
  then have "\<forall>m \<in> set (subnodes (buildTree v rootKey)). childIdsExtend m"
    using childIdsExtend_subnodes(1) [of path k x] by simp
  then show ?thesis
    using child_id_strict_extension buildTree_ids_distinct by blast
qed

theorem buildTree_ids_extend_and_distinct_witness:
  "wf_json (JObj [(''user'', JObj [(''tags'', JArr [JNum 1, JNum 2])]), (''n'', JNull)]) \<and>
   plainKeys (JObj [(''user'', JObj [(''tags'', JArr [JNum 1, JNum 2])]), (''n'', JNull)]) \<and>
   distinct (map node_id (subnodes (buildTree
     (JObj [(''user'', JObj [(''tags'', JArr [JNum 1, JNum 2])]), (''n'', JNull)]) ''root''))) \<and>
   childIdsExtend (buildTree
     (JObj [(''user'', JObj [(''tags'', JArr [JNum 1, JNum 2])]), (''n'', JNull)]) ''root'')"
  using buildTree_ids_extend_and_distinct
    [of "JObj [(''user'', JObj [(''tags'', JArr [JNum 1, JNum 2])]), (''n'', JNull)]" "''root''"]
  by (simp add: plainKey_def)

text \<open>
  C5, as stated, fails: the ids are not pairwise distinct for every value. In
  \<^verbatim>\<open>{"a.b": 1, "a": {"b": 2}}\<close> the key \<^verbatim>\<open>a.b\<close> of the root and the key \<^verbatim>\<open>b\<close> below \<^verbatim>\<open>a\<close> both
  get the id \<^verbatim>\<open>$.a.b\<close>.
\<close>

theorem buildTree_ids_not_distinct:
  "wf_json (JObj [(''a.b'', JNum 1), (''a'', JObj [(''b'', JNum 2)])]) \<and>
   map node_id (subnodes (buildTree (JObj [(''a.b'', JNum 1), (''a'', JObj [(''b'', JNum 2)])]) ''root''))
     = [''$'', ''$.a.b'', ''$.a'', ''$.a.b''] \<and>
   \<not> distinct (map node_id
      (subnodes (buildTree (JObj [(''a.b'', JNum 1), (''a'', JObj [(''b'', JNum 2)])]) ''root'')))"
  by simp

lemma ids_not_distinct_bracket:
  "map node_id (subnodes (buildTree (JObj [(''a[0]'', JNum 1), (''a'', JArr [JNum 2])]) ''root''))
     = [''$'', ''$.a[0]'', ''$.a'', ''$.a[0]'']"
  by (simp add: String_nat.simps digitChar_def)

subsection \<open>A collapsed root and the id of the whole document\<close>

lemma subnodes_unfold: "subnodes n = n # concat (map subnodes (children n))"
  by (cases n) simp

lemma buildGraph_fids:
  "set (map fid (nodes (buildGraph v h))) = set (map node_id (subnodes (buildTree v ''root'')))"
proof -
  let ?t = "layoutTree (fst (computeWidths (buildTree v ''root''))) 0 0 H_GAP V_GAP"
  have "set (map fid (nodes (buildGraph v h))) = set (map fid (nodes (mapLoop h [?t] [] [])))"
    by (simp add: buildGraph_def Let_def mapToFlow_def reanchor_fids del: mapLoop.simps)
  also have "\<dots> = set (map node_id (subnodes ?t))"
    using mapLoop_fids [of h "[?t]" "[]" "[]"] by (simp del: mapLoop.simps)
  also have "\<dots> = set (map node_id (subnodes (buildTree v ''root'')))"
    by (simp only: subnodes_ids_layoutTree subnodes_ids_computeWidths)
  finally show ?thesis .
qed

lemma buildGraph_fid_form:
  assumes "n \<in> set (nodes (buildGraph (JObj [(k, x)]) h))"
  shows "\<exists>r. fid n = ''$.'' @ k @ r"
proof -
  from assms have "fid n \<in> set (map fid (nodes (buildGraph (JObj [(k, x)]) h)))"
    by simp
  then have "fid n \<in> set (map ((@) (''$.'' @ k)) (relPaths x))"
    by (simp only: buildGraph_fids buildTree_single ids_expand)
  then show ?thesis
    by (auto simp del: append.simps)
qed

text \<open>
  C10. For a document that is an object with exactly one key \<open>k\<close>, every node of the
  graph has an id that begins with \<^verbatim>\<open>$.\<close> and \<open>k\<close>, so none has the id \<^verbatim>\<open>$\<close>. A search with
  the empty query sets the highlight id to \<^verbatim>\<open>$\<close>, which is the id of no node of the graph
  it builds.
\<close>

theorem collapsed_root_has_no_dollar_node:
  "(\<forall>n \<in> set (nodes (buildGraph (JObj [(k, x)]) h)).
      prefix (''$.'' @ k) (fid n) \<and> fid n \<noteq> ''$'')
   \<and> (\<exists>st'. onSearch toInteger inherited (st\<lparr> raw := JObj [(k, x)], query := [] \<rparr>) = Some st'
         \<and> highlightId st' = Some ''$''
         \<and> (\<forall>n \<in> set (nodes (graph st')). fid n \<noteq> ''$''))"
proof (intro conjI ballI)
  fix n assume "n \<in> set (nodes (buildGraph (JObj [(k, x)]) h))"
  then obtain r where r: "fid n = ''$.'' @ k @ r"
    using buildGraph_fid_form by blast
  then show "prefix (''$.'' @ k) (fid n)"
    by (simp add: prefix_def)
  from r show "fid n \<noteq> ''$''"
    by simp
next
  let ?st' = "st\<lparr> raw := JObj [(k, x)], query := [], status := ''Match found'',
                highlightId := Some ''$'',
                graph := buildGraph (JObj [(k, x)]) (Some ''$'') \<rparr>"
  have run: "onSearch toInteger inherited (st\<lparr> raw := JObj [(k, x)], query := [] \<rparr>) = Some ?st'"
    by (simp add: onSearch_def parsePath_def trim_def)
  have "fid n \<noteq> ''$''" if "n \<in> set (nodes (graph ?st'))" for n
  proof -
    from that have "n \<in> set (nodes (buildGraph (JObj [(k, x)]) (Some ''$'')))"
      by simp
    then obtain r where "fid n = ''$.'' @ k @ r"
      using buildGraph_fid_form by blast
    then show ?thesis by simp
  qed
  with run show "\<exists>st'. onSearch toInteger inherited (st\<lparr> raw := JObj [(k, x)], query := [] \<rparr>) = Some st'
         \<and> highlightId st' = Some ''$''
         \<and> (\<forall>n \<in> set (nodes (graph st')). fid n \<noteq> ''$'')"
    by (intro exI [of _ ?st']) simp
qed

theorem collapsed_root_has_no_dollar_node_witness:
  "map fid (nodes (buildGraph (JObj [(''a'', JObj [(''b'', JNum 1)])]) (Some ''$'')))
     = [''$.a'', ''$.a.b''] \<and>
   map background (nodes (buildGraph (JObj [(''a'', JObj [(''b'', JNum 1)])]) (Some ''$'')))
     = [''#6C63FF'', ''#F39C12''] \<and>
   prefix ''$.a'' ''$.a.b''"
  using collapsed_root_has_no_dollar_node
    [of "''a''" "JObj [(''b'', JNum 1)]" "Some ''$''" decimalInteger "\<lambda>k t. False"
       "\<lparr> graph = \<lparr> nodes = [], edges = [] \<rparr>, raw = JNull, query = [], status = [],
          highlightId = None \<rparr>"]
  by (simp add: buildGraph_def mapToFlow_def reanchor_def flowNode_def flowEdge_def
      H_GAP_def V_GAP_def)

subsection \<open>Widths\<close>

lemma fst_computeWidths:
  "fst (computeWidths (Node i k t v cs w p))
     = Node i k t v (map (\<lambda>c. fst (computeWidths c)) cs)
         (max 1 (sum_list (map (\<lambda>c. width (fst (computeWidths c))) cs))) p"
  by (simp only: computeWidths_eq fst_conv snd_computeWidths)

lemma sum_list_ge_length:
  fixes f :: "'a \<Rightarrow> int"
  assumes "\<And>x. x \<in> set xs \<Longrightarrow> 1 \<le> f x"
  shows "int (length xs) \<le> sum_list (map f xs)"
  using assms by (induction xs) (simp_all add: add_mono)

lemma subnodes_self: "n \<in> set (subnodes n)"
  by (cases n) simp

lemma widthRule_computeWidths:
  "\<forall>m \<in> set (subnodes (fst (computeWidths n))). widthRule m"
proof (induction n)
  case (Node i k t v cs w p)
  let ?cs' = "map (\<lambda>c. fst (computeWidths c)) cs"
  let ?sum = "sum_list (map (\<lambda>c. width (fst (computeWidths c))) cs)"
  have below: "\<forall>m \<in> set (concat (map subnodes ?cs')). widthRule m"
    using Node.IH by auto
  have "1 \<le> width (fst (computeWidths c))" if "c \<in> set cs" for c
    using Node.IH [OF that] subnodes_self [of "fst (computeWidths c)"]
    by (auto simp: widthRule_def)
  then have "int (length cs) \<le> ?sum"
    by (rule sum_list_ge_length)
  then have "cs \<noteq> [] \<Longrightarrow> max 1 ?sum = ?sum"
    by (cases cs) simp_all
  then have "widthRule (Node i k t v ?cs' (max 1 ?sum) p)"
    by (simp add: widthRule_def comp_def)
  with below show ?case
    by (simp only: fst_computeWidths subnodes.simps set_simps ball_simps simp_thms)
qed

lemma leafRule_expand:
  "\<forall>m \<in> set (subnodes (expand path k v)). leafRule m"
  "\<forall>m \<in> set (concat (map subnodes (expandKeys path kvs))). leafRule m"
  "\<forall>m \<in> set (concat (map subnodes (expandItems path i xs))). leafRule m"
  by (induction path k v and path kvs and path i xs rule: expand_expandKeys_expandItems.induct)
    (simp_all add: leafRule_def ball_Un)

lemma leafRule_computeWidths:
  "\<forall>m \<in> set (subnodes n). leafRule m \<Longrightarrow>
   \<forall>m \<in> set (subnodes (fst (computeWidths n))). leafRule m"
proof (induction n)
  case (Node i k t v cs w p)
  have "\<forall>m \<in> set (subnodes (fst (computeWidths c))). leafRule m" if "c \<in> set cs" for c
    using Node.IH [OF that] Node.prems that by auto
  then have "\<forall>m \<in> set (concat (map subnodes (map (\<lambda>c. fst (computeWidths c)) cs))). leafRule m"
    by auto
  moreover have "leafRule (Node i k t v (map (\<lambda>c. fst (computeWidths c)) cs)
      (max 1 (sum_list (map (\<lambda>c. width (fst (computeWidths c))) cs))) p)"
    using Node.prems by (simp add: leafRule_def)
  ultimately show ?case
    by (simp only: fst_computeWidths subnodes.simps set_simps ball_simps simp_thms)
qed

text \<open>
  C2, as the code has it. After \<^verbatim>\<open>computeWidths\<close> has run on a built tree, every primitive
  leaf, and more generally every node without children, has width 1; every node with at
  least one child has the sum of its children's widths; and every width is at least 1.
\<close>

theorem computeWidths_widths:
  "\<forall>m \<in> set (subnodes (fst (computeWidths (buildTree v rootKey)))).
     (node_type m = KPrimitive \<longrightarrow> children m = [] \<and> width m = 1) \<and>
     (children m = [] \<longrightarrow> width m = 1) \<and>
     (children m \<noteq> [] \<longrightarrow> width m = sum_list (map width (children m))) \<and>
     1 \<le> width m"
proof -
  obtain path k x where "buildTree v rootKey = expand path k x"
    using buildTree_expand by blast
  then have "\<forall>m \<in> set (subnodes (buildTree v rootKey)). leafRule m"
    using leafRule_expand(1) [of path k x] by simp
  then have "\<forall>m \<in> set (subnodes (fst (computeWidths (buildTree v rootKey)))). leafRule m"
    by (rule leafRule_computeWidths)
  moreover have
    "\<forall>m \<in> set (subnodes (fst (computeWidths (buildTree v rootKey)))). widthRule m"
    by (rule widthRule_computeWidths)
  ultimately show ?thesis
    by (auto simp: leafRule_def widthRule_def)
qed

theorem computeWidths_widths_witness:
  "map width (subnodes (fst (computeWidths
      (buildTree (JObj [(''x'', JNum 1), (''y'', JArr [JNum 1, JNull]), (''z'', JObj [])]) ''root''))))
   = [4, 1, 2, 1, 1, 1]"
  using computeWidths_widths [of "JObj [(''x'', JNum 1), (''y'', JArr [JNum 1, JNull]), (''z'', JObj [])]" "''root''"]
  by simp

text \<open>
  C2, as stated, fails in the direction from width 1 to primitive leaf: the root of
  \<^verbatim>\<open>[7]\<close> is an array with one child, and its width is 1.
\<close>

theorem width_one_not_only_leaves:
  "width (fst (computeWidths (buildTree (JArr [JNum 7]) ''root''))) = 1 \<and>
   node_type (fst (computeWidths (buildTree (JArr [JNum 7]) ''root''))) = KArray \<and>
   length (children (fst (computeWidths (buildTree (JArr [JNum 7]) ''root'')))) = 1"
  by simp

lemma width_one_empty_object:
  "map (\<lambda>m. (node_id m, node_type m, width m))
     (subnodes (fst (computeWidths (buildTree (JObj [(''a'', JObj []), (''b'', JNum 1)]) ''root''))))
   = [(''$'', KObject, 2), (''$.a'', KObject, 1), (''$.b'', KPrimitive, 1)]"
  by simp

subsection \<open>Layout\<close>





lemma position_layoutTree:
  "fst (position (layoutTree n xStart depth xGap yGap)) = xStart + (of_int (width n) * xGap) / 2"
  by (cases n) simp















subsection \<open>Empty token sequences\<close>

lemma pushBuf_empty: "pushBuf tokens buf = [] \<longleftrightarrow> tokens = [] \<and> buf = []"
  by (simp add: pushBuf_def)

lemma scanPath_empty_iff:
  "scanPath toInteger s tokens buf = [] \<longleftrightarrow>
     bracketFails toInteger s \<or> (tokens = [] \<and> buf = [] \<and> onlyDots s)"
proof (induction toInteger s tokens buf rule: scanPath.induct)
  case (1 toInteger tokens buf)
  show ?case
    by (simp add: pushBuf_empty onlyDots_def)
next
  case (2 toInteger ch rest tokens buf)
  consider (dot) "ch = CHR ''.''"
    | (unterminated) "ch = CHR ''[''" "CHR '']'' \<notin> set rest"
    | (invalid) "ch = CHR ''[''" "CHR '']'' \<in> set rest"
        "toInteger (takeWhile (\<lambda>c. c \<noteq> CHR '']'') rest) = None"
    | (index) idx where "ch = CHR ''[''" "CHR '']'' \<in> set rest"
        "toInteger (takeWhile (\<lambda>c. c \<noteq> CHR '']'') rest) = Some idx"
    | (other) "ch \<noteq> CHR ''.''" "ch \<noteq> CHR ''[''"
    by (cases "toInteger (takeWhile (\<lambda>c. c \<noteq> CHR '']'') rest)") auto
  then show ?case
  proof cases
    case dot
    with "2.IH"(1) show ?thesis
      by (simp add: pushBuf_empty onlyDots_def)
  next
    case unterminated
    then show ?thesis
      by (simp add: onlyDots_def)
  next
    case invalid
    then show ?thesis
      by (simp add: onlyDots_def)
  next
    case index
    with "2.IH"(2) [of idx] show ?thesis
      by (simp add: onlyDots_def)
  next
    case other
    with "2.IH"(3) show ?thesis
      by (simp add: onlyDots_def)
  qed
qed

lemma parsePath_empty_iff:
  "parsePath toInteger q = [] \<longleftrightarrow>
     bracketFails toInteger (stripped q) \<or> onlyDots (stripped q)"
proof (cases "q = []")
  case True
  then show ?thesis
    by (simp add: parsePath_def stripped_def trim_def stripLeading_def onlyDots_def)
next
  case False
  then show ?thesis
    by (simp add: parsePath_def stripped_def scanPath_empty_iff)
qed

lemmas path_eval = parsePath_eval stripped_def onlyDots_def decimalInteger_def decimalValue_def
  digitValue_def

text \<open>
  C7, at an input where the code leaves the claim. In the query \<^verbatim>\<open>[]\<close> the bracket is
  terminated and its contents are empty. \<^verbatim>\<open>Number('')\<close> is 0 and \<^verbatim>\<open>Number.isInteger(0)\<close>
  holds, so the check of line 155 lets the empty contents pass: \<^verbatim>\<open>parsePath\<close> returns the
  index 0, not the empty sequence, and against an array the query \<^verbatim>\<open>$[]\<close> resolves to the
  first element.
\<close>

theorem parsePath_empty_brackets_yield_index:
  "decimalInteger [] = Some 0 \<and>
   parsePath decimalInteger ''[]'' = [Index 0] \<and>
   parsePath decimalInteger ''$[]'' = [Index 0] \<and>
   findByPath inherited (JArr [JStr ''first'']) (parsePath decimalInteger ''$[]'')
     = Found (JStr ''first'') ''$[0]''"
  by (simp add: path_eval findByPath_def String_nat.simps digitChar_def)

text \<open>
  The same for every conversion that, like \<^verbatim>\<open>Number\<close>, reads the empty text as 0; a
  conversion that refuses the empty text gives the empty sequence the claim asks for.
\<close>

lemma parsePath_empty_brackets:
  "toInteger [] = Some 0 \<Longrightarrow> parsePath toInteger ''[]'' = [Index 0]"
  by (simp add: parsePath_eval)

lemma parsePath_empty_brackets_refused:
  "toInteger [] = None \<Longrightarrow> parsePath toInteger ''[]'' = []"
  by (simp add: parsePath_eval)

text \<open>
  The other cases of the claim, examples: an unterminated bracket and contents that are
  no integer give no token, as does a query that is stripped to nothing; a well-formed
  path gives its tokens. A remainder of \<^verbatim>\<open>.\<close> characters only gives no token either (line
  148 pushes nothing for an empty \<^verbatim>\<open>buf\<close>), which \<open>parsePath_empty_iff\<close> covers by
  \<open>onlyDots\<close>.
\<close>

lemma parsePath_examples:
  "parsePath decimalInteger ''a[x].b'' = [] \<and> bracketFails decimalInteger ''a[x].b'' \<and>
   parsePath decimalInteger ''a[1'' = [] \<and> bracketFails decimalInteger ''a[1'' \<and>
   parsePath decimalInteger '' $.'' = [] \<and> stripped '' $.'' = [] \<and>
   parsePath decimalInteger ''$.a[1]'' = [Key ''a'', Index 1] \<and>
   \<not> bracketFails decimalInteger ''a[1]'' \<and> \<not> onlyDots ''a[1]'' \<and>
   parsePath decimalInteger ''..'' = [] \<and> stripped ''..'' = ''.''"
  by (simp add: path_eval)

text \<open>
  \<^verbatim>\<open>findByPath\<close> resolves the empty token sequence to the root, and so does the search
  handler for an empty or white-space-only query, once a document is loaded that
  JavaScript does not take as false.
\<close>

lemma findByPath_no_token: "findByPath inherited v [] = Found v ''$''"
  by (simp add: findByPath_def)

lemma onSearch_empty_query:
  assumes "\<not> falsy (raw st)" and "trim (query st) = []"
  shows "onSearch toInteger inherited st
         = Some (st\<lparr> status := ''Match found'', highlightId := Some ''$'',
                     graph := buildGraph (raw st) (Some ''$'') \<rparr>)"
proof -
  from assms(2) have "stripped (query st) = []"
    by (simp add: stripped_def stripLeading_def)
  then have "parsePath toInteger (query st) = []"
    by (simp add: parsePath_empty_iff onlyDots_def)
  with assms show ?thesis
    by (simp add: onSearch_def)
qed

lemma onSearch_falsy_document:
  "falsy (raw st) \<Longrightarrow>
   onSearch toInteger inherited st
     = Some (st\<lparr> status := ''No tree. Paste JSON and Generate first.'' \<rparr>)"
  by (simp add: onSearch_def)

text \<open>
  The search handler takes every non-empty query without tokens as a failure (line 238),
  the query \<^verbatim>\<open>$\<close> included.
\<close>

lemma onSearch_dollar_query:
  "onSearch toInteger inherited
     \<lparr> graph = g, raw = JArr [], query = ''$'', status = [], highlightId = h \<rparr>
   = Some \<lparr> graph = g, raw = JArr [], query = ''$'', status = ''No match found'',
            highlightId = h \<rparr>"
  by (simp add: onSearch_def parsePath_eval)

end
